theory Spec2Isabelle
  imports Complex_Main
begin

section \<open>Values and errors\<close>

text \<open>
  The tuner computes with IEEE double-precision floats. A finite double is modelled by
  the real number it denotes; the infinities and NaN are values of their own, because
  the program goes on computing with them: numpy emits a RuntimeWarning there and
  raises nothing. The two zeros are not told apart: the program never divides by a
  computed zero, and every other operation it uses treats them alike.
\<close>

datatype npfloat = Finite real | PosInf | NegInf | NaN

text \<open>The exceptions that the modelled code can raise.\<close>

datatype error = KeyError string | ValueError | ZeroDivisionError | IndexError

text \<open>IEEE comparison: every comparison with NaN is false.\<close>

fun flt :: "npfloat \<Rightarrow> npfloat \<Rightarrow> bool" where
  "flt NaN _ = False"
| "flt _ NaN = False"
| "flt (Finite a) (Finite b) = (a < b)"
| "flt (Finite a) PosInf = True"
| "flt (Finite a) NegInf = False"
| "flt PosInf _ = False"
| "flt NegInf NegInf = False"
| "flt NegInf _ = True"

fun fle :: "npfloat \<Rightarrow> npfloat \<Rightarrow> bool" where
  "fle NaN _ = False"
| "fle _ NaN = False"
| "fle (Finite a) (Finite b) = (a \<le> b)"
| "fle (Finite a) PosInf = True"
| "fle (Finite a) NegInf = False"
| "fle PosInf PosInf = True"
| "fle PosInf _ = False"
| "fle NegInf _ = True"

text \<open>\<^verbatim>\<open>abs(x)\<close> and \<^verbatim>\<open>-x\<close> on a float.\<close>

fun fabs :: "npfloat \<Rightarrow> npfloat" where
  "fabs (Finite a) = Finite \<bar>a\<bar>"
| "fabs PosInf = PosInf"
| "fabs NegInf = PosInf"
| "fabs NaN = NaN"

fun fneg :: "npfloat \<Rightarrow> npfloat" where
  "fneg (Finite a) = Finite (- a)"
| "fneg PosInf = NegInf"
| "fneg NegInf = PosInf"
| "fneg NaN = NaN"

section \<open>Rounding to a double\<close>

text \<open>
  Rounding to the nearest integer, ties to the even one.
\<close>

definition round_even :: "real \<Rightarrow> int" where
  "round_even y =
     (let n = \<lfloor>y\<rfloor>; d = y - real_of_int n
      in if d < 1 / 2 then n
         else if 1 / 2 < d then n + 1
         else if even n then n else n + 1)"

text \<open>
  The binary exponent of \<open>x\<close>, not below the exponent of the smallest normal double:
  in the binade of \<open>x\<close> the doubles are the multiples of \<open>2 powr (binade x - 52)\<close>.
\<close>

definition binade :: "real \<Rightarrow> int" where
  "binade x = max \<lfloor>log 2 \<bar>x\<bar>\<rfloor> (- 1022)"

text \<open>
  The multiple of that spacing nearest to \<open>x\<close>, ties to the even multiple.
\<close>

definition nearest :: "real \<Rightarrow> real" where
  "nearest x =
     (if x = 0 then 0
      else let q = 2 powr real_of_int (binade x - 52)
           in real_of_int (round_even (x / q)) * q)"

text \<open>
  The result of an IEEE operation whose exact result is \<open>x\<close>: the nearest double, and
  an infinity where that would reach \<open>2 ^ 1024\<close>. Quotients and products of doubles are
  rounded this way.
\<close>

definition rnd :: "real \<Rightarrow> npfloat" where
  "rnd x =
     (if 2 ^ 1024 \<le> \<bar>nearest x\<bar> then (if 0 < x then PosInf else NegInf)
      else Finite (nearest x))"

text \<open>
  The double that a float literal of the source denotes. Every literal of this program
  is far inside the range of the doubles.
\<close>

definition double_of :: "real \<Rightarrow> real" where
  "double_of x = (case rnd x of Finite y \<Rightarrow> y | _ \<Rightarrow> x)"

section \<open>Operations on floats\<close>

text \<open>
  \<^verbatim>\<open>np.log2(x)\<close>: minus infinity at zero and NaN below it, each with a warning only. On
  a positive finite double the result is what the platform's routine returns there: the
  parameter \<open>lg\<close>.
\<close>

fun np_log2 :: "(real \<Rightarrow> real) \<Rightarrow> npfloat \<Rightarrow> npfloat" where
  "np_log2 lg (Finite x) = (if 0 < x then Finite (lg x) else if x = 0 then NegInf else NaN)"
| "np_log2 lg PosInf = PosInf"
| "np_log2 lg NegInf = NaN"
| "np_log2 lg NaN = NaN"


text \<open>The correctly rounded logarithm, one routine that \<open>lg\<close> can stand for.\<close>

definition log2_rounded :: "real \<Rightarrow> real" where
  "log2_rounded x = nearest (log 2 x)"

text \<open>\<^verbatim>\<open>c * y\<close> for a finite \<open>c\<close> and a float \<open>y\<close>.\<close>

fun fmul :: "real \<Rightarrow> npfloat \<Rightarrow> npfloat" where
  "fmul c (Finite a) = rnd (c * a)"
| "fmul c PosInf = (if 0 < c then PosInf else if c < 0 then NegInf else NaN)"
| "fmul c NegInf = (if 0 < c then NegInf else if c < 0 then PosInf else NaN)"
| "fmul c NaN = NaN"

text \<open>
  Python's two-argument \<^verbatim>\<open>min\<close> and \<^verbatim>\<open>max\<close> keep the first argument unless the second
  one compares strictly smaller (greater).
\<close>

definition py_min :: "npfloat \<Rightarrow> npfloat \<Rightarrow> npfloat" where
  "py_min a b = (if flt b a then b else a)"

definition py_max :: "npfloat \<Rightarrow> npfloat \<Rightarrow> npfloat" where
  "py_max a b = (if flt a b then b else a)"

section \<open>The tuning comparator\<close>

text \<open>
  The dictionary \<^verbatim>\<open>NOTES\<close> of \<^verbatim>\<open>get_note_match\<close>, in the order in which the source
  lists its entries, and the lookup it supports.
\<close>

definition NOTES_items :: "(string \<times> real) list" where
  "NOTES_items =
     [(''E2'', 82.41), (''A2'', 110.00), (''D3'', 146.83),
      (''G3'', 196.00), (''B3'', 246.94), (''E4'', 329.63)]"

definition NOTES :: "string \<rightharpoonup> real" where
  "NOTES = map_of NOTES_items"

text \<open>The dictionary as the interpreter holds it: every literal is a double.\<close>

definition NOTES_float :: "string \<rightharpoonup> real" where
  "NOTES_float note = map_option double_of (NOTES note)"

text \<open>
  \<^verbatim>\<open>get_note_match(frequency, target_note)\<close>: the subscript \<^verbatim>\<open>NOTES[target_note]\<close> raises
  KeyError for a missing key; nothing else in the function raises. The quotient and the
  product are rounded; the divisor is a table value, which is never zero.
\<close>

definition get_note_match ::
  "(real \<Rightarrow> real) \<Rightarrow> real \<Rightarrow> string \<Rightarrow> error + (real \<times> npfloat)" where
  "get_note_match lg frequency target_note =
     (case NOTES_float target_note of
        None \<Rightarrow> Inl (KeyError target_note)
      | Some target_freq \<Rightarrow>
          let cents_off = fmul 1200 (np_log2 lg (rnd (frequency / target_freq)))
          in Inr (target_freq, cents_off))"

text \<open>
  The needle of \<^verbatim>\<open>create_tuning_meter(cents)\<close>: the figure depends on \<open>cents\<close> only
  through the x-position of the needle, which is the clamped value.
\<close>

definition create_tuning_meter :: "npfloat \<Rightarrow> npfloat" where
  "create_tuning_meter cents = py_max (py_min cents (Finite 50)) (Finite (- 50))"

text \<open>
  The three branches of the status display in \<^verbatim>\<open>main\<close>: \<open>PERFECT\<close> is the branch that
  shows "Perfect!", \<open>CLOSE\<close> the one that shows "Close!", \<open>OFF\<close> the one that shows
  "Keep adjusting!".
\<close>

datatype band = PERFECT | CLOSE | OFF

definition quality_band :: "npfloat \<Rightarrow> band" where
  "quality_band cents =
     (if fle (fabs cents) (Finite 5) then PERFECT
      else if fle (fabs cents) (Finite 15) then CLOSE
      else OFF)"

fun status_color :: "band \<Rightarrow> string" where
  "status_color PERFECT = ''#4CAF50''"
| "status_color CLOSE = ''#FFA500''"
| "status_color OFF = ''#FF4444''"

section \<open>The pitch estimator in exact arithmetic\<close>

text \<open>
  \<^verbatim>\<open>np.hanning(M)\<close>: empty below one point, a single one for one point, and otherwise
  \<^verbatim>\<open>0.5 + 0.5*cos(pi*n/(M-1))\<close> over \<^verbatim>\<open>n = arange(1-M, M, 2)\<close>.
\<close>

definition hanning :: "nat \<Rightarrow> real list" where
  "hanning M =
     (if M < 1 then []
      else if M = 1 then [1]
      else let n = map (\<lambda>i. 1 - int M + 2 * int i) [0..<M]
           in map (\<lambda>n. 0.5 + 0.5 * cos (pi * real_of_int n / real (M - 1))) n)"

text \<open>
  \<^verbatim>\<open>scipy.fftpack.fft(x)\<close> of a real sequence: entry \<open>k\<close> is the sum of
  \<^verbatim>\<open>x[m] * exp(-2*pi*i*k*m/n)\<close>; the routine rejects an empty sequence with ValueError.
\<close>

definition fft :: "real list \<Rightarrow> error + complex list" where
  "fft x =
     (let n = length x
      in if n < 1 then Inl ValueError
         else Inr (map (\<lambda>k. \<Sum>m = 0..<n. complex_of_real (x ! m)
                                 * cis (- (2 * pi * real k * real m / real n))) [0..<n]))"

text \<open>
  \<^verbatim>\<open>np.fft.fftfreq(n, d)\<close>: the integers \<^verbatim>\<open>0 .. (n-1)//2\<close> followed by
  \<^verbatim>\<open>-(n//2) .. -1\<close>, each multiplied by \<^verbatim>\<open>val = 1.0/(n*d)\<close>.
\<close>

definition fftfreq :: "nat \<Rightarrow> real \<Rightarrow> error + real list" where
  "fftfreq n d =
     (if real n * d = 0 then Inl ZeroDivisionError
      else let val = 1 / (real n * d);
               N = nat ((int n - 1) div 2 + 1);
               p1 = map int [0..<N];
               p2 = map (\<lambda>i. int i - int (n div 2)) [0..<n div 2]
           in Inr (map (\<lambda>j. real_of_int j * val) (p1 @ p2)))"

text \<open>
  \<^verbatim>\<open>np.argmax(a)\<close>: the index of the first occurrence of the largest entry; an empty
  array is rejected with ValueError. The scan keeps the best index and value so far.
\<close>

fun argmax_from :: "nat \<Rightarrow> real \<Rightarrow> nat \<Rightarrow> real list \<Rightarrow> nat" where
  "argmax_from best bv i [] = best"
| "argmax_from best bv i (x # xs) =
     (if bv < x then argmax_from i x (Suc i) xs else argmax_from best bv (Suc i) xs)"

definition argmax :: "real list \<Rightarrow> error + nat" where
  "argmax a = (case a of [] \<Rightarrow> Inl ValueError | x # xs \<Rightarrow> Inr (argmax_from 0 x 1 xs))"

text \<open>
  \<^verbatim>\<open>detect_pitch(audio_data, sample_rate)\<close>, statement by statement. The FFT is taken
  before \<^verbatim>\<open>1.0/sample_rate\<close> is evaluated, so an empty buffer fails first.
\<close>

definition detect_pitch :: "real list \<Rightarrow> int \<Rightarrow> error + real" where
  "detect_pitch audio_data sample_rate =
     (let window = hanning (length audio_data);
          audio_data' = map2 (*) audio_data window
      in case fft audio_data' of
           Inl e \<Rightarrow> Inl e
         | Inr fft_data \<Rightarrow>
             if sample_rate = 0 then Inl ZeroDivisionError
             else case fftfreq (length fft_data) (1 / real_of_int sample_rate) of
                    Inl e \<Rightarrow> Inl e
                  | Inr freqs \<Rightarrow>
                      let magnitude = map cmod fft_data
                      in case argmax magnitude of
                           Inl e \<Rightarrow> Inl e
                         | Inr k \<Rightarrow>
                             if k < length freqs then Inr \<bar>freqs ! k\<bar>
                             else Inl IndexError)"

section \<open>The pitch estimator on the machine\<close>

text \<open>
  The definitions above compute with exact real numbers. On the machine every step
  rounds, and which of two nearly equal magnitudes is the larger one can depend on that.
  The routines whose results depend on rounding are therefore parameters here: the
  window that \<^verbatim>\<open>np.hanning\<close> returns, the product and the quotient of two doubles, the
  transform that \<^verbatim>\<open>scipy.fftpack.fft\<close> returns and the magnitude that \<^verbatim>\<open>np.abs\<close> returns.
\<close>

record arith =
  np_hanning :: "nat \<Rightarrow> real list"
  fl_times :: "real \<Rightarrow> real \<Rightarrow> real"
  fl_divide :: "real \<Rightarrow> real \<Rightarrow> real"
  sp_fft :: "real list \<Rightarrow> error + complex list"
  np_abs :: "complex \<Rightarrow> real"

text \<open>Exact arithmetic is one way to fill the parameters in.\<close>

definition exact_arith :: arith where
  "exact_arith =
     \<lparr>np_hanning = hanning, fl_times = (*), fl_divide = (/), sp_fft = fft, np_abs = cmod\<rparr>"


definition fftfreq_with :: "arith \<Rightarrow> nat \<Rightarrow> real \<Rightarrow> error + real list" where
  "fftfreq_with ar n d =
     (if fl_times ar (real n) d = 0 then Inl ZeroDivisionError
      else let val = fl_divide ar 1 (fl_times ar (real n) d);
               N = nat ((int n - 1) div 2 + 1);
               p1 = map int [0..<N];
               p2 = map (\<lambda>i. int i - int (n div 2)) [0..<n div 2]
           in Inr (map (\<lambda>j. fl_times ar (real_of_int j) val) (p1 @ p2)))"

definition detect_pitch_with :: "arith \<Rightarrow> real list \<Rightarrow> int \<Rightarrow> error + real" where
  "detect_pitch_with ar audio_data sample_rate =
     (let window = np_hanning ar (length audio_data);
          audio_data' = map2 (fl_times ar) audio_data window
      in case sp_fft ar audio_data' of
           Inl e \<Rightarrow> Inl e
         | Inr fft_data \<Rightarrow>
             if sample_rate = 0 then Inl ZeroDivisionError
             else case fftfreq_with ar (length fft_data)
                         (fl_divide ar 1 (real_of_int sample_rate)) of
                    Inl e \<Rightarrow> Inl e
                  | Inr freqs \<Rightarrow>
                      let magnitude = map (np_abs ar) fft_data
                      in case argmax magnitude of
                           Inl e \<Rightarrow> Inl e
                         | Inr k \<Rightarrow>
                             if k < length freqs then Inr \<bar>freqs ! k\<bar>
                             else Inl IndexError)"

section \<open>One pass of the recording loop\<close>

text \<open>
  The body of the \<^verbatim>\<open>while\<close> loop of \<^verbatim>\<open>main\<close>, for one recorded buffer: the detected
  frequency, the comparator's two results (the three numbers that the result panel
  prints), the needle drawn by the meter and the branch of the status display. The
  sample rate is the constant of \<^verbatim>\<open>main\<close>.
\<close>

definition SAMPLE_RATE :: int where
  "SAMPLE_RATE = 44100"

record frame =
  shown_frequency :: real
  shown_expected :: real
  shown_cents :: npfloat
  needle :: npfloat
  status :: band

definition process_frame ::
  "arith \<Rightarrow> (real \<Rightarrow> real) \<Rightarrow> real list \<Rightarrow> string \<Rightarrow> error + frame" where
  "process_frame ar lg audio_data selected_note =
     (case detect_pitch_with ar audio_data SAMPLE_RATE of
        Inl e \<Rightarrow> Inl e
      | Inr frequency \<Rightarrow>
          (case get_note_match lg frequency selected_note of
             Inl e \<Rightarrow> Inl e
           | Inr (expected_freq, cents) \<Rightarrow>
               Inr \<lparr>shown_frequency = frequency, shown_expected = expected_freq,
                    shown_cents = cents, needle = create_tuning_meter cents,
                    status = quality_band cents\<rparr>))"

section \<open>The estimator as the specification words it\<close>




definition bin_frequency :: "nat \<Rightarrow> int \<Rightarrow> nat \<Rightarrow> real" where
  "bin_frequency N R k =
     (if 2 * k < N then real k * real_of_int R / real N
      else (real k - real N) * real_of_int R / real N)"


section \<open>Facts about rounding\<close>

lemma round_even_cases:
  "round_even y = \<lfloor>y\<rfloor> \<or> round_even y = \<lfloor>y\<rfloor> + 1"
  by (simp add: round_even_def Let_def)

lemma round_even_error: "\<bar>real_of_int (round_even y) - y\<bar> \<le> 1 / 2"
proof -
  have "real_of_int \<lfloor>y\<rfloor> \<le> y" "y < real_of_int \<lfloor>y\<rfloor> + 1" by linarith+
  then show ?thesis
    by (auto simp add: round_even_def Let_def)
qed

lemma round_even_of_int [simp]: "round_even (real_of_int n) = n"
  by (simp add: round_even_def Let_def)

lemma round_even_zero_iff: "round_even y = 0 \<longleftrightarrow> \<bar>y\<bar> \<le> 1 / 2"
proof
  assume "round_even y = 0"
  with round_even_error [of y] show "\<bar>y\<bar> \<le> 1 / 2" by simp
next
  assume a: "\<bar>y\<bar> \<le> 1 / 2"
  show "round_even y = 0"
  proof (cases "0 \<le> y")
    case True
    with a have "\<lfloor>y\<rfloor> = 0" by (simp add: floor_eq_iff)
    with a True show ?thesis by (simp add: round_even_def Let_def)
  next
    case False
    with a have f: "\<lfloor>y\<rfloor> = - 1" by (simp add: floor_eq_iff)
    with a False show ?thesis by (auto simp add: round_even_def Let_def)
  qed
qed

lemma round_even_mono:
  assumes "y \<le> z"
  shows "round_even y \<le> round_even z"
proof (cases "\<lfloor>y\<rfloor> = \<lfloor>z\<rfloor>")
  case True
  have "y - real_of_int \<lfloor>z\<rfloor> \<le> z - real_of_int \<lfloor>z\<rfloor>" using assms by simp
  then show ?thesis
    unfolding round_even_def Let_def True by auto
next
  case False
  with assms have "\<lfloor>y\<rfloor> < \<lfloor>z\<rfloor>" by (simp add: floor_mono order.strict_iff_order)
  then have "\<lfloor>y\<rfloor> + 1 \<le> \<lfloor>z\<rfloor>" by simp
  moreover have "round_even y \<le> \<lfloor>y\<rfloor> + 1" using round_even_cases [of y] by auto
  moreover have "\<lfloor>z\<rfloor> \<le> round_even z" using round_even_cases [of z] by auto
  ultimately show ?thesis by linarith
qed

lemma round_even_ge: "real_of_int n \<le> y \<Longrightarrow> n \<le> round_even y"
  using round_even_mono [of "real_of_int n" y] by simp

lemma round_even_le: "y \<le> real_of_int n \<Longrightarrow> round_even y \<le> n"
  using round_even_mono [of y "real_of_int n"] by simp

lemma binade_ge: "- 1022 \<le> binade x"
  by (simp add: binade_def)

lemma binade_upper:
  assumes "x \<noteq> 0"
  shows "\<bar>x\<bar> < 2 powr real_of_int (binade x + 1)"
proof -
  have pos: "0 < \<bar>x\<bar>" using assms by simp
  have "\<bar>x\<bar> < 2 powr real_of_int (\<lfloor>log 2 \<bar>x\<bar>\<rfloor> + 1)"
    using floor_log_eq_powr_iff [of "\<bar>x\<bar>" 2 "\<lfloor>log 2 \<bar>x\<bar>\<rfloor>"] pos by simp
  also have "\<dots> \<le> 2 powr real_of_int (binade x + 1)"
    by (simp add: binade_def)
  finally show ?thesis .
qed

lemma binade_lower:
  assumes "2 powr (- 1022) \<le> \<bar>x\<bar>"
  shows "2 powr real_of_int (binade x) \<le> \<bar>x\<bar>"
proof -
  have pos: "0 < \<bar>x\<bar>" using assms by (smt (verit) powr_gt_zero)
  have l: "2 powr real_of_int \<lfloor>log 2 \<bar>x\<bar>\<rfloor> \<le> \<bar>x\<bar>"
    using floor_log_eq_powr_iff [of "\<bar>x\<bar>" 2 "\<lfloor>log 2 \<bar>x\<bar>\<rfloor>"] pos by simp
  show ?thesis
  proof (cases "- 1022 \<le> \<lfloor>log 2 \<bar>x\<bar>\<rfloor>")
    case True
    then have "binade x = \<lfloor>log 2 \<bar>x\<bar>\<rfloor>" by (simp add: binade_def)
    with l show ?thesis by simp
  next
    case False
    then have "binade x = - 1022" by (simp add: binade_def)
    with assms show ?thesis by simp
  qed
qed

lemma binade_subnormal:
  assumes "x \<noteq> 0" "\<bar>x\<bar> < 2 powr (- 1022)"
  shows "binade x = - 1022"
proof -
  have pos: "0 < \<bar>x\<bar>" using assms by simp
  have "\<lfloor>log 2 \<bar>x\<bar>\<rfloor> < - 1022"
  proof (rule ccontr)
    assume "\<not> \<lfloor>log 2 \<bar>x\<bar>\<rfloor> < - 1022"
    then have h: "- 1022 \<le> \<lfloor>log 2 \<bar>x\<bar>\<rfloor>" by simp
    have "real_of_int (- 1022) \<le> real_of_int \<lfloor>log 2 \<bar>x\<bar>\<rfloor>"
      unfolding of_int_le_iff by (rule h)
    then have "2 powr real_of_int (- 1022) \<le> 2 powr real_of_int \<lfloor>log 2 \<bar>x\<bar>\<rfloor>"
      by (rule powr_mono) simp
    then have "2 powr (- 1022) \<le> 2 powr real_of_int \<lfloor>log 2 \<bar>x\<bar>\<rfloor>" by simp
    also have "\<dots> \<le> \<bar>x\<bar>"
      using floor_log_eq_powr_iff [of "\<bar>x\<bar>" 2 "\<lfloor>log 2 \<bar>x\<bar>\<rfloor>"] pos by simp
    finally show False using assms(2) by simp
  qed
  then show ?thesis by (simp add: binade_def)
qed

lemma binade_eqI:
  assumes "- 1022 \<le> k" "2 powr real_of_int k \<le> \<bar>x\<bar>" "\<bar>x\<bar> < 2 powr real_of_int (k + 1)"
  shows "binade x = k"
proof -
  have pos: "0 < \<bar>x\<bar>" using assms(2) by (smt (verit) powr_gt_zero)
  have "\<lfloor>log 2 \<bar>x\<bar>\<rfloor> = k"
    using floor_log_eq_powr_iff [of "\<bar>x\<bar>" 2 k] pos assms by simp
  then show ?thesis using assms(1) by (simp add: binade_def)
qed

lemma round_even_minus: "round_even (- y) = - round_even y"
proof (cases "y = real_of_int \<lfloor>y\<rfloor>")
  case True
  then obtain n where "y = real_of_int n" by blast
  then have "- y = real_of_int (- n)" by simp
  then show ?thesis using \<open>y = real_of_int n\<close> by (simp only: round_even_of_int)
next
  case False
  define n where "n = \<lfloor>y\<rfloor>"
  have lo: "real_of_int n < y" using False n_def by (smt (verit) of_int_floor_le)
  have hi: "y < real_of_int n + 1" unfolding n_def by linarith
  have f: "\<lfloor>- y\<rfloor> = - n - 1"
    using lo hi by (simp add: floor_eq_iff)
  show ?thesis
    unfolding round_even_def Let_def f n_def [symmetric]
    using lo hi by auto
qed

lemma nearest_zero [simp]: "nearest 0 = 0"
  by (simp add: nearest_def)

lemma binade_minus [simp]: "binade (- x) = binade x"
  by (simp add: binade_def)

lemma nearest_minus: "nearest (- x) = - nearest x"
  by (simp add: nearest_def Let_def round_even_minus)

lemma nearest_error:
  "\<bar>nearest x - x\<bar> \<le> 2 powr real_of_int (binade x - 53)"
proof (cases "x = 0")
  case True
  then show ?thesis by simp
next
  case False
  define q where "q = 2 powr real_of_int (binade x - 52)"
  have q: "0 < q" by (simp add: q_def)
  have "nearest x = real_of_int (round_even (x / q)) * q"
    unfolding nearest_def Let_def q_def using False by simp
  then have "nearest x - x = (real_of_int (round_even (x / q)) - x / q) * q"
    using q by (simp add: algebra_simps)
  then have "\<bar>nearest x - x\<bar> = \<bar>real_of_int (round_even (x / q)) - x / q\<bar> * q"
    using q by (simp add: abs_mult)
  also have "\<dots> \<le> 1 / 2 * q"
    using round_even_error [of "x / q"] q by (simp add: mult_right_mono)
  also have "\<dots> = 2 powr real_of_int (binade x - 53)"
    by (simp add: q_def powr_diff)
  finally show ?thesis .
qed

lemma nearest_error_normal:
  assumes "2 powr (- 1022) \<le> \<bar>x\<bar>"
  shows "\<bar>nearest x - x\<bar> \<le> 2 powr (- 53) * \<bar>x\<bar>"
proof -
  have "2 powr real_of_int (binade x - 53) = 2 powr (- 53) * 2 powr real_of_int (binade x)"
    by (simp add: powr_diff powr_minus field_simps)
  also have "\<dots> \<le> 2 powr (- 53) * \<bar>x\<bar>"
    using binade_lower [OF assms] by (simp add: mult_left_mono)
  finally show ?thesis using nearest_error [of x] by linarith
qed

lemma nearest_underflow:
  assumes "\<bar>x\<bar> \<le> 2 powr (- 1075)"
  shows "nearest x = 0"
proof (cases "x = 0")
  case True
  then show ?thesis by simp
next
  case False
  have "2 powr (- 1075) < (2::real) powr (- 1022)" by simp
  with assms have "\<bar>x\<bar> < 2 powr (- 1022)" by linarith
  with False have b: "binade x = - 1022" by (rule binade_subnormal)
  have "\<bar>x / 2 powr (- 1074)\<bar> = \<bar>x\<bar> * 2 powr 1074"
    by (simp add: powr_minus abs_mult field_simps)
  also have "\<dots> \<le> 2 powr (- 1075) * 2 powr 1074"
    using assms by (simp add: mult_right_mono)
  also have "\<dots> = 2 powr (- 1075 + 1074)"
    by (simp only: powr_add)
  also have "\<dots> = 1 / 2"
    by (simp add: powr_minus)
  finally have "round_even (x / 2 powr (- 1074)) = 0"
    by (simp add: round_even_zero_iff)
  then show ?thesis using False b by (simp add: nearest_def Let_def)
qed

lemma nearest_nonneg:
  assumes "0 \<le> x"
  shows "0 \<le> nearest x"
proof (cases "x = 0")
  case True
  then show ?thesis by simp
next
  case False
  have "0 \<le> x / 2 powr real_of_int (binade x - 52)" using assms by simp
  then have "0 \<le> round_even (x / 2 powr real_of_int (binade x - 52))"
    using round_even_ge [of 0] by simp
  then show ?thesis using False by (simp add: nearest_def Let_def)
qed

lemma nearest_pos:
  assumes "2 powr (- 1075) < x"
  shows "0 < nearest x"
proof -
  have x: "0 < x" using assms by (smt (verit) powr_gt_zero)
  define q where "q = 2 powr real_of_int (binade x - 52)"
  have q: "0 < q" by (simp add: q_def)
  have "- 1074 \<le> binade x - 52" using binade_ge [of x] by simp
  then have "real_of_int (- 1074) \<le> real_of_int (binade x - 52)"
    unfolding of_int_le_iff .
  then have "2 powr real_of_int (- 1074) \<le> q"
    unfolding q_def by (rule powr_mono) simp
  then have q1: "2 powr (- 1074) \<le> q" by simp
  have half: "1 / 2 < x / q"
  proof (cases "2 powr (- 1022) \<le> \<bar>x\<bar>")
    case True
    have "q = 2 powr (- 52) * 2 powr real_of_int (binade x)"
      by (simp add: q_def powr_diff powr_minus field_simps)
    also have "\<dots> \<le> 2 powr (- 52) * x"
      using binade_lower [OF True] x by (simp add: mult_left_mono)
    finally have "q \<le> 2 powr (- 52) * x" .
    moreover have "(2::real) powr (- 52) < 2" 
      using powr_less_mono [of "- 52" 1 "2::real"] by simp
    then have "2 powr (- 52) * x < 2 * x" using x
      by (rule mult_strict_right_mono)
    ultimately have "q < 2 * x" by linarith
    then show ?thesis using q by (simp add: field_simps)
  next
    case False
    then have sub: "\<bar>x\<bar> < 2 powr (- 1022)" by simp
    have "x \<noteq> 0" using x by simp
    then have "binade x = - 1022" using sub by (rule binade_subnormal)
    then have "q = 2 powr (- 1074)" by (simp add: q_def)
    moreover have "2 powr (- 1075) = (1 / 2) * (2::real) powr (- 1074)"
      by (simp add: powr_minus field_simps)
    ultimately show ?thesis using assms q by (simp add: field_simps)
  qed
  have "0 < x / q" using x q by simp
  then have "\<bar>x / q\<bar> = x / q" by (rule abs_of_pos)
  then have "round_even (x / q) \<noteq> 0"
    using half unfolding round_even_zero_iff by linarith
  moreover have "0 \<le> round_even (x / q)"
    using round_even_ge [of 0 "x / q"] x q by simp
  ultimately have "0 < round_even (x / q)" by simp
  moreover have "nearest x = real_of_int (round_even (x / q)) * q"
    unfolding nearest_def Let_def q_def using x by simp
  ultimately show ?thesis using q by simp
qed

lemma nearest_unfold:
  assumes "x \<noteq> 0"
  shows "nearest x = real_of_int (round_even (x / 2 powr real_of_int (binade x - 52)))
                      * 2 powr real_of_int (binade x - 52)"
  unfolding nearest_def Let_def using assms by simp

lemma binade_mono_pos:
  assumes "0 < x" "x \<le> x'"
  shows "binade x \<le> binade x'"
proof -
  have "log 2 \<bar>x\<bar> \<le> log 2 \<bar>x'\<bar>" using assms by simp
  then have "\<lfloor>log 2 \<bar>x\<bar>\<rfloor> \<le> \<lfloor>log 2 \<bar>x'\<bar>\<rfloor>" by (rule floor_mono)
  then show ?thesis by (simp add: binade_def)
qed

lemma binade_lower':
  assumes "x \<noteq> 0" "- 1022 < binade x"
  shows "2 powr real_of_int (binade x) \<le> \<bar>x\<bar>"
proof (rule binade_lower)
  show "2 powr (- 1022) \<le> \<bar>x\<bar>"
  proof (rule ccontr)
    assume "\<not> 2 powr (- 1022) \<le> \<bar>x\<bar>"
    then have "\<bar>x\<bar> < 2 powr (- 1022)" by simp
    with assms(1) have "binade x = - 1022" by (rule binade_subnormal)
    with assms(2) show False by simp
  qed
qed

lemma two_powr_split: "2 powr real_of_int (b + 1) = 2 ^ 53 * 2 powr real_of_int (b - 52)"
proof -
  have "real_of_int (b + 1) = 53 + real_of_int (b - 52)" by simp
  then have "2 powr real_of_int (b + 1) = 2 powr 53 * 2 powr real_of_int (b - 52)"
    by (simp only: powr_add)
  then show ?thesis by simp
qed

lemma two_powr_split': "2 powr real_of_int b = 2 ^ 52 * 2 powr real_of_int (b - 52)"
proof -
  have "real_of_int b = 52 + real_of_int (b - 52)" by simp
  then have "2 powr real_of_int b = 2 powr 52 * 2 powr real_of_int (b - 52)"
    by (simp only: powr_add)
  then show ?thesis by simp
qed

lemma nearest_le_top:
  assumes "0 < x"
  shows "nearest x \<le> 2 powr real_of_int (binade x + 1)"
proof -
  define q where "q = 2 powr real_of_int (binade x - 52)"
  have q: "0 < q" by (simp add: q_def)
  have x0: "x \<noteq> 0" using assms by simp
  have "x < 2 ^ 53 * q"
    using binade_upper [OF x0] assms unfolding two_powr_split q_def by simp
  then have "x / q \<le> real_of_int (2 ^ 53)" using q by (simp add: field_simps)
  then have "round_even (x / q) \<le> 2 ^ 53" by (rule round_even_le)
  then have "real_of_int (round_even (x / q)) \<le> 2 ^ 53"
    by (metis of_int_le_iff of_int_numeral of_int_power)
  then have "real_of_int (round_even (x / q)) * q \<le> 2 ^ 53 * q"
    using q by (simp add: mult_right_mono)
  then show ?thesis
    unfolding nearest_unfold [OF x0] two_powr_split q_def .
qed

lemma nearest_ge_bottom:
  assumes "0 < x" "2 powr real_of_int (binade x) \<le> x"
  shows "2 powr real_of_int (binade x) \<le> nearest x"
proof -
  define q where "q = 2 powr real_of_int (binade x - 52)"
  have q: "0 < q" by (simp add: q_def)
  have x0: "x \<noteq> 0" using assms by simp
  have "2 ^ 52 * q \<le> x"
    using assms(2) unfolding two_powr_split' [of "binade x"] q_def by simp
  then have "real_of_int (2 ^ 52) \<le> x / q" using q by (simp add: field_simps)
  then have "2 ^ 52 \<le> round_even (x / q)" by (rule round_even_ge)
  then have "2 ^ 52 \<le> real_of_int (round_even (x / q))"
    by (metis of_int_le_iff of_int_numeral of_int_power)
  then have "2 ^ 52 * q \<le> real_of_int (round_even (x / q)) * q"
    using q by (simp add: mult_right_mono)
  then show ?thesis
    unfolding nearest_unfold [OF x0] two_powr_split' [of "binade x"] q_def .
qed

lemma nearest_mono_pos:
  assumes "0 < x" "x \<le> x'"
  shows "nearest x \<le> nearest x'"
proof -
  have x0: "x \<noteq> 0" and x0': "x' \<noteq> 0" and x': "0 < x'" using assms by simp_all
  have b: "binade x \<le> binade x'" using assms by (rule binade_mono_pos)
  show ?thesis
  proof (cases "binade x = binade x'")
    case True
    define q where "q = 2 powr real_of_int (binade x - 52)"
    have q: "0 < q" by (simp add: q_def)
    have "x / q \<le> x' / q" using assms(2) q by (simp add: divide_right_mono)
    then have "round_even (x / q) \<le> round_even (x' / q)" by (rule round_even_mono)
    then have "real_of_int (round_even (x / q)) * q \<le> real_of_int (round_even (x' / q)) * q"
      using q by (simp add: mult_right_mono)
    then show ?thesis
      unfolding nearest_unfold [OF x0] nearest_unfold [OF x0'] True [symmetric] q_def .
  next
    case False
    with b have lt: "binade x + 1 \<le> binade x'" by simp
    have "- 1022 < binade x'" using lt binade_ge [of x] by linarith
    with x0' have "2 powr real_of_int (binade x') \<le> \<bar>x'\<bar>" by (rule binade_lower')
    then have lo: "2 powr real_of_int (binade x') \<le> x'" using x' by simp
    have "nearest x \<le> 2 powr real_of_int (binade x + 1)"
      using assms(1) by (rule nearest_le_top)
    also have "\<dots> \<le> 2 powr real_of_int (binade x')"
    proof (rule powr_mono)
      show "real_of_int (binade x + 1) \<le> real_of_int (binade x')"
        unfolding of_int_le_iff by (rule lt)
    qed simp
    also have "\<dots> \<le> nearest x'" using x' lo by (rule nearest_ge_bottom)
    finally show ?thesis .
  qed
qed

lemma nearest_mono:
  assumes "x \<le> x'"
  shows "nearest x \<le> nearest x'"
proof -
  consider "0 < x" | "x \<le> 0" "0 \<le> x'" | "x' < 0" by linarith
  then show ?thesis
  proof cases
    case 1
    then show ?thesis using assms by (rule nearest_mono_pos)
  next
    case 2
    have "0 \<le> nearest (- x)" using 2(1) by (simp add: nearest_nonneg)
    then have "nearest x \<le> 0" by (simp add: nearest_minus)
    moreover have "0 \<le> nearest x'" using 2(2) by (rule nearest_nonneg)
    ultimately show ?thesis by simp
  next
    case 3
    then have "0 < - x'" "- x' \<le> - x" using assms by simp_all
    then have "nearest (- x') \<le> nearest (- x)" by (rule nearest_mono_pos)
    then show ?thesis by (simp add: nearest_minus)
  qed
qed

lemma rnd_alt:
  "rnd x = (if 2 ^ 1024 \<le> nearest x then PosInf
            else if nearest x \<le> - (2 ^ 1024) then NegInf
            else Finite (nearest x))"
proof -
  have a: "0 < x" if "2 ^ 1024 \<le> nearest x"
  proof (rule ccontr)
    assume "\<not> 0 < x"
    then have "0 \<le> - x" by simp
    then have "0 \<le> nearest (- x)" by (rule nearest_nonneg)
    then have "nearest x \<le> 0" by (simp add: nearest_minus)
    with that show False by (smt (verit) zero_less_power)
  qed
  have b: "\<not> 0 < x" if "nearest x \<le> - (2 ^ 1024)"
  proof
    assume "0 < x"
    then have "0 \<le> nearest x" by (simp add: nearest_nonneg)
    with that show False by (smt (verit) zero_less_power)
  qed
  show ?thesis
    unfolding rnd_def using a b by (auto simp add: abs_le_iff abs_if)
qed

lemma rnd_mono:
  assumes "x \<le> x'"
  shows "fle (rnd x) (rnd x')"
  using nearest_mono [OF assms] unfolding rnd_alt
  by (auto simp add: not_le)

lemma rnd_finite:
  assumes "\<bar>nearest x\<bar> < 2 ^ 1024"
  shows "rnd x = Finite (nearest x)"
  using assms by (simp add: rnd_def)

lemma rnd_minus: "rnd (- x) = fneg (rnd x)"
  unfolding rnd_alt by (auto simp add: nearest_minus)

lemma rnd_zero [simp]: "rnd 0 = Finite 0"
  by (simp add: rnd_def)

lemma nearest_exactI:
  assumes "- 1022 \<le> k" "2 powr real_of_int k \<le> \<bar>x\<bar>" "\<bar>x\<bar> < 2 powr real_of_int (k + 1)"
    and "x / 2 powr real_of_int (k - 52) = real_of_int m"
  shows "nearest x = x"
proof -
  have b: "binade x = k" using assms(1-3) by (rule binade_eqI)
  have x0: "x \<noteq> 0" using assms(2) by (smt (verit) powr_gt_zero)
  have "nearest x = real_of_int m * 2 powr real_of_int (k - 52)"
    unfolding nearest_unfold [OF x0] b assms(4) by simp
  also have "\<dots> = x" using assms(4) by (simp add: field_simps)
  finally show ?thesis .
qed




lemma nearest_1 [simp]: "nearest 1 = 1"
  by (rule nearest_exactI [where k = 0 and m = "2 ^ 52"]) (simp_all add: powr_minus)

lemma nearest_2 [simp]: "nearest 2 = 2"
  by (rule nearest_exactI [where k = 1 and m = "2 ^ 52"]) (simp_all add: powr_minus)

lemma nearest_110 [simp]: "nearest 110 = 110"
  by (rule nearest_exactI [where k = 6 and m = "110 * 2 ^ 46"]) (simp_all add: powr_minus)

lemma nearest_1200 [simp]: "nearest 1200 = 1200"
  by (rule nearest_exactI [where k = 10 and m = "1200 * 2 ^ 42"]) (simp_all add: powr_minus)

lemma rnd_1 [simp]: "rnd 1 = Finite 1"
  by (simp add: rnd_def)

lemma rnd_2 [simp]: "rnd 2 = Finite 2"
  by (simp add: rnd_def)

lemma rnd_1200 [simp]: "rnd 1200 = Finite 1200"
  by (simp add: rnd_def)

lemma double_of_110 [simp]: "double_of 110 = 110"
  by (simp add: double_of_def rnd_def)

section \<open>Facts about the note table\<close>

lemma NOTES_simps:
  "NOTES ''E2'' = Some 82.41" "NOTES ''A2'' = Some 110.00" "NOTES ''D3'' = Some 146.83"
  "NOTES ''G3'' = Some 196.00" "NOTES ''B3'' = Some 246.94" "NOTES ''E4'' = Some 329.63"
  by (simp_all add: NOTES_def NOTES_items_def)

lemma NOTES_dom: "dom NOTES = {''E2'', ''A2'', ''D3'', ''G3'', ''B3'', ''E4''}"
  by (auto simp add: NOTES_def NOTES_items_def dom_map_of_conv_image_fst)

text \<open>
  C7: the note table has exactly the six keys E2, A2, D3, G3, B3, E4, with the values
  82.41, 110.00, 146.83, 196.00, 246.94, 329.63 Hz, and the values increase strictly in
  that order.
\<close>

theorem note_table_contents:
  "map fst NOTES_items = [''E2'', ''A2'', ''D3'', ''G3'', ''B3'', ''E4'']
   \<and> map NOTES [''E2'', ''A2'', ''D3'', ''G3'', ''B3'', ''E4'']
       = [Some 82.41, Some 110.00, Some 146.83, Some 196.00, Some 246.94, Some 329.63]
   \<and> dom NOTES = {''E2'', ''A2'', ''D3'', ''G3'', ''B3'', ''E4''}
   \<and> sorted_wrt (<) (map snd NOTES_items)"
proof -
  have "sorted_wrt (<) (map snd NOTES_items)"
    by (simp add: NOTES_items_def)
  moreover have "map fst NOTES_items = [''E2'', ''A2'', ''D3'', ''G3'', ''B3'', ''E4'']"
    by (simp add: NOTES_items_def)
  ultimately show ?thesis
    by (simp add: NOTES_simps NOTES_dom)
qed

lemma NOTES_range:
  assumes "NOTES note = Some x"
  shows "82 < x \<and> x < 330"
proof -
  from assms have "(note, x) \<in> set NOTES_items"
    unfolding NOTES_def by (rule map_of_SomeD)
  then show ?thesis by (auto simp add: NOTES_items_def)
qed

lemma double_of_near:
  assumes "1 \<le> x" "x \<le> 1000"
  shows "double_of x = nearest x \<and> \<bar>nearest x - x\<bar> \<le> 2 powr (- 53) * x"
proof -
  have "(2::real) powr (- 1022) \<le> 1" 
    using powr_mono [of "- 1022" 0 "2::real"] by simp
  then have n: "2 powr (- 1022) \<le> \<bar>x\<bar>" using assms(1) by simp
  have e: "\<bar>nearest x - x\<bar> \<le> 2 powr (- 53) * x"
    using nearest_error_normal [OF n] assms(1) by simp
  have "(2::real) powr (- 53) \<le> 1"
    using powr_mono [of "- 53" 0 "2::real"] by simp
  then have "2 powr (- 53) * x \<le> 1 * x"
    using assms(1) by (intro mult_right_mono) simp_all
  with e have "\<bar>nearest x\<bar> \<le> 2 * x" by linarith
  also have "\<dots> \<le> 2000" using assms(2) by simp
  also have "\<dots> < (2::real) ^ 1024" by simp
  finally have "rnd x = Finite (nearest x)" by (rule rnd_finite)
  then show ?thesis using e by (simp add: double_of_def)
qed

lemma NOTES_float_range:
  assumes "NOTES_float note = Some f_t"
  shows "81 < f_t \<and> f_t < 331"
proof -
  from assms obtain x where x: "NOTES note = Some x" and f: "f_t = double_of x"
    by (auto simp add: NOTES_float_def)
  from x have r: "82 < x \<and> x < 330" by (rule NOTES_range)
  then have "1 \<le> x" "x \<le> 1000" by simp_all
  then have d: "double_of x = nearest x \<and> \<bar>nearest x - x\<bar> \<le> 2 powr (- 53) * x"
    by (rule double_of_near)
  have "(2::real) powr (- 53) \<le> 2 powr (- 9)"
    by (rule powr_mono) simp_all
  also have "\<dots> = 1 / 512" by (simp add: powr_minus)
  finally have "2 powr (- 53) * x \<le> 1 / 512 * x"
    using r by (intro mult_right_mono) simp_all
  then have "2 powr (- 53) * x \<le> 1" using r by linarith
  moreover have "\<bar>nearest x - x\<bar> \<le> 2 powr (- 53) * x" using d by simp
  ultimately have "\<bar>nearest x - x\<bar> \<le> 1" by linarith
  then have "81 < nearest x \<and> nearest x < 331" using r by linarith
  then show ?thesis unfolding f using d by simp
qed

lemma NOTES_float_A2 [simp]: "NOTES_float ''A2'' = Some 110"
  by (simp add: NOTES_float_def NOTES_simps)

lemma NOTES_float_dom: "dom NOTES_float = dom NOTES"
  by (auto simp add: NOTES_float_def dom_def)

lemma get_note_match_Some:
  assumes "NOTES_float note = Some f_t"
  shows "get_note_match lg f note
         = Inr (f_t, fmul 1200 (np_log2 lg (rnd (f / f_t))))"
  using assms by (simp add: get_note_match_def)

section \<open>The comparator\<close>


lemma rnd_nonneg:
  assumes "0 \<le> q"
  shows "fle (Finite 0) (rnd q)"
  using rnd_mono [OF assms] by simp

lemma rnd_not_NaN [simp]: "rnd x \<noteq> NaN"
  by (simp add: rnd_alt)

lemma fle_refl: "a \<noteq> NaN \<Longrightarrow> fle a a"
  by (cases a) simp_all






lemma cents_at_one:
  assumes "lg 1 = 0"
  shows "fmul 1200 (np_log2 lg (rnd 1)) = Finite 0"
  using assms by simp









text \<open>
  C5, as the specification states it, asks for an error at a frequency \<open>\<le> 0\<close>. The
  function has no such check: at 0 Hz and the note A2 it returns the target frequency
  and minus infinity.
\<close>

theorem nonpositive_frequency_counterexample:
  "(0::real) \<le> 0 \<and> NOTES_float ''A2'' = Some 110
   \<and> get_note_match log2_rounded 0 ''A2'' = Inr (110, NegInf)"
  by (simp add: get_note_match_def)

lemma np_log2_negative:
  assumes "x < - (2 powr (- 1075))"
  shows "np_log2 lg (rnd x) = NaN"
proof -
  have "2 powr (- 1075) < - x" using assms by simp
  then have "0 < nearest (- x)" by (rule nearest_pos)
  then have "nearest x < 0" by (simp add: nearest_minus)
  then show ?thesis unfolding rnd_alt by auto
qed

lemma np_log2_underflow:
  assumes "\<bar>x\<bar> \<le> 2 powr (- 1075)"
  shows "np_log2 lg (rnd x) = NegInf"
proof -
  have "nearest x = 0" using assms by (rule nearest_underflow)
  then show ?thesis unfolding rnd_alt by simp
qed

text \<open>
  C5, amended: for a frequency \<open>\<le> 0\<close> and a note of the table the comparator raises
  nothing; it returns the target frequency together with minus infinity where the
  rounded quotient is zero (at 0 Hz, and at negative frequencies so small that the
  quotient underflows), and with NaN at every other negative frequency.
\<close>

theorem nonpositive_frequency_no_error:
  assumes "f \<le> 0" "NOTES_float note = Some f_t"
  shows "get_note_match lg f note
         = Inr (f_t, if - (2 powr (- 1075)) \<le> f / f_t then NegInf else NaN)"
proof -
  have ft: "0 < f_t" using NOTES_float_range [OF assms(2)] by simp
  have q: "f / f_t \<le> 0" using assms(1) ft by (simp add: divide_nonpos_pos)
  show ?thesis
  proof (cases "- (2 powr (- 1075)) \<le> f / f_t")
    case True
    with q have "\<bar>f / f_t\<bar> \<le> 2 powr (- 1075)" by simp
    then have "np_log2 lg (rnd (f / f_t)) = NegInf" by (rule np_log2_underflow)
    then show ?thesis using True unfolding get_note_match_Some [OF assms(2)] by simp
  next
    case False
    then have "f / f_t < - (2 powr (- 1075))" by simp
    then have "np_log2 lg (rnd (f / f_t)) = NaN" by (rule np_log2_negative)
    then show ?thesis using False unfolding get_note_match_Some [OF assms(2)] by simp
  qed
qed

theorem nonpositive_frequency_no_error_witness:
  "(- 1::real) \<le> 0 \<and> NOTES_float ''A2'' = Some 110
   \<and> get_note_match log2_rounded (- 1) ''A2'' = Inr (110, NaN)
   \<and> get_note_match log2_rounded (- (1 / 2 ^ 1074)) ''A2'' = Inr (110, NegInf)
   \<and> get_note_match log2_rounded 0 ''A2'' = Inr (110, NegInf)"
proof -
  have h: "NOTES_float ''A2'' = Some 110" by simp
  have p: "(2::real) powr (- 1075) = 1 / 2 ^ 1075" by (simp add: powr_minus)
  have a: "get_note_match log2_rounded (- 1) ''A2'' = Inr (110, NaN)"
    using nonpositive_frequency_no_error [OF _ h, of "- 1" log2_rounded] unfolding p by simp
  have b: "get_note_match log2_rounded (- (1 / 2 ^ 1074)) ''A2'' = Inr (110, NegInf)"
    using nonpositive_frequency_no_error [OF _ h, of "- (1 / 2 ^ 1074)" log2_rounded]
    unfolding p by simp
  have c: "get_note_match log2_rounded 0 ''A2'' = Inr (110, NegInf)"
    using nonpositive_frequency_no_error [OF _ h, of 0 log2_rounded] by simp
  show ?thesis using a b c h by simp
qed

text \<open>
  C6: for a note that is not a key of the table the comparator fails with the error that
  names the unknown note (Python's KeyError), whatever the frequency and the log2
  routine, and returns no result.
\<close>

theorem unknown_note_raises:
  assumes "note \<notin> dom NOTES"
  shows "get_note_match lg f note = Inl (KeyError note)"
  using assms by (auto simp add: get_note_match_def NOTES_float_def split: option.splits)

theorem unknown_note_raises_witness:
  "''C4'' \<notin> dom NOTES \<and> get_note_match log2_rounded 440 ''C4'' = Inl (KeyError ''C4'')"
proof -
  have h: "''C4'' \<notin> dom NOTES" by (simp add: NOTES_dom)
  from unknown_note_raises [OF h, of log2_rounded 440] h show ?thesis by simp
qed



lemma u_small: "(2::real) powr (- 53) \<le> 1 / 2 ^ 53" "(0::real) < 2 powr (- 53)"
  by (simp_all add: powr_minus)





section \<open>The status display\<close>

text \<open>
  C3: the status display shows PERFECT when \<open>abs cents \<le> 5\<close>, CLOSE when
  \<open>5 < abs cents \<le> 15\<close> and OFF when \<open>abs cents > 15\<close>; both thresholds belong to the
  tighter band, and a deviation and its negation are classified alike.
\<close>

theorem quality_band_thresholds:
  "(fle (fabs c) (Finite 5) \<longrightarrow> quality_band c = PERFECT)
   \<and> (flt (Finite 5) (fabs c) \<and> fle (fabs c) (Finite 15) \<longrightarrow> quality_band c = CLOSE)
   \<and> (flt (Finite 15) (fabs c) \<longrightarrow> quality_band c = OFF)
   \<and> quality_band (fneg c) = quality_band c"
  by (cases c) (auto simp add: quality_band_def)

theorem quality_band_thresholds_witness:
  "quality_band (Finite 5) = PERFECT \<and> quality_band (Finite 5.0001) = CLOSE
   \<and> quality_band (Finite 15) = CLOSE \<and> quality_band (Finite 15.0001) = OFF
   \<and> quality_band (Finite (- 5)) = PERFECT \<and> quality_band (Finite (- 15)) = CLOSE
   \<and> quality_band NegInf = OFF"
  using quality_band_thresholds [of "Finite 5"] quality_band_thresholds [of "Finite 5.0001"]
    quality_band_thresholds [of "Finite 15"] quality_band_thresholds [of "Finite 15.0001"]
    quality_band_thresholds [of "Finite (- 5)"] quality_band_thresholds [of "Finite (- 15)"]
    quality_band_thresholds [of NegInf]
  by simp

section \<open>The estimator computes what the specification words describe\<close>

lemma length_hanning: "length (hanning M) = M"
  by (auto simp add: hanning_def Let_def)





lemma fftfreq_eq:
  assumes "0 < n" "R \<noteq> 0"
  shows "fftfreq n (1 / real_of_int R) = Inr (map (bin_frequency n R) [0..<n])"
proof -
  let ?N = "nat ((int n - 1) div 2 + 1)"
  let ?l = "map int [0..<?N] @ map (\<lambda>i. int i - int (n div 2)) [0..<n div 2]"
  have N: "?N = (n - 1) div 2 + 1" using assms(1) by (simp add: nat_add_distrib nat_div_distrib of_nat_diff) 
  have len: "?N + n div 2 = n" using assms(1) unfolding N by presburger
  have val: "1 / (real n * (1 / real_of_int R)) = real_of_int R / real n"
    by simp
  have nz: "real n * (1 / real_of_int R) \<noteq> 0" using assms by simp
  have "map (\<lambda>j. real_of_int j * (real_of_int R / real n)) ?l = map (bin_frequency n R) [0..<n]"
  proof (rule nth_equalityI)
    show "length (map (\<lambda>j. real_of_int j * (real_of_int R / real n)) ?l)
          = length (map (bin_frequency n R) [0..<n])"
      using len by simp
  next
    fix k assume "k < length (map (\<lambda>j. real_of_int j * (real_of_int R / real n)) ?l)"
    then have k: "k < n" using len by simp
    show "map (\<lambda>j. real_of_int j * (real_of_int R / real n)) ?l ! k
          = map (bin_frequency n R) [0..<n] ! k"
    proof (cases "2 * k < n")
      case True
      then have kN: "k < ?N" unfolding N by presburger
      then have lk: "?l ! k = int k" by (simp add: nth_append)
      have "k < length ?l" using k len by simp
      then have "map (\<lambda>j. real_of_int j * (real_of_int R / real n)) ?l ! k
                 = real_of_int (?l ! k) * (real_of_int R / real n)"
        by (rule nth_map)
      then show ?thesis using True k unfolding lk by (simp add: bin_frequency_def)
    next
      case False
      then have kN: "\<not> k < ?N" using assms(1) unfolding N by presburger
      have "k - ?N < n div 2" using k len kN by linarith
      then have "?l ! k = int (k - ?N) - int (n div 2)" using kN by (simp add: nth_append)
      also have "\<dots> = int k - int n" using len kN by linarith
      finally have lk: "?l ! k = int k - int n" .
      have "k < length ?l" using k len by simp
      then have "map (\<lambda>j. real_of_int j * (real_of_int R / real n)) ?l ! k
                 = real_of_int (?l ! k) * (real_of_int R / real n)"
        by (rule nth_map)
      then show ?thesis using False k unfolding lk by (simp add: bin_frequency_def)
    qed
  qed
  then show ?thesis
    using nz unfolding fftfreq_def Let_def val by simp
qed






lemma fftfreq_with_exact: "fftfreq_with exact_arith n d = fftfreq n d"
  by (simp add: fftfreq_with_def fftfreq_def exact_arith_def)

lemma exact_arith_simps [simp]:
  "np_hanning exact_arith = hanning" "fl_times exact_arith = (*)"
  "fl_divide exact_arith = (/)" "sp_fft exact_arith = fft" "np_abs exact_arith = cmod"
  by (simp_all add: exact_arith_def)

lemma detect_pitch_with_exact: "detect_pitch_with exact_arith xs R = detect_pitch xs R"
  unfolding detect_pitch_with_def detect_pitch_def fftfreq_with_exact exact_arith_simps ..




section \<open>Silence and short buffers\<close>

lemma argmax_from_zeros: "argmax_from best 0 i (replicate m 0) = best"
  by (induction m arbitrary: i) simp_all

lemma detect_pitch_silence:
  assumes "xs \<noteq> []" "\<forall>x\<in>set xs. x = 0" "R \<noteq> 0"
  shows "detect_pitch xs R = Inr 0"
proof -
  let ?n = "length xs"
  have n: "0 < ?n" using assms(1) by simp
  have xs: "xs = replicate ?n 0"
    using assms(2) by (simp add: replicate_length_same)
  have w: "map2 (*) xs (hanning ?n) = replicate ?n 0"
  proof (rule nth_equalityI)
    show "length (map2 (*) xs (hanning ?n)) = length (replicate ?n (0::real))"
      by (simp add: length_hanning)
  next
    fix i assume "i < length (map2 (*) xs (hanning ?n))"
    then have i: "i < ?n" by (simp add: length_hanning)
    then have "xs ! i = 0" using assms(2) by simp
    then show "map2 (*) xs (hanning ?n) ! i = replicate ?n (0::real) ! i"
      using i by (simp add: length_hanning)
  qed
  have f: "fft (replicate ?n (0::real)) = Inr (replicate ?n 0)"
    using n by (simp add: fft_def Let_def map_replicate_const)
  obtain m where m: "?n = Suc m" using n by (cases ?n) auto
  have am: "argmax (replicate ?n (0::real)) = Inr 0"
    unfolding m by (simp add: argmax_def argmax_from_zeros)
  have fr: "fftfreq ?n (1 / real_of_int R) = Inr (map (bin_frequency ?n R) [0..<?n])"
    using n assms(3) by (rule fftfreq_eq)
  have b0: "map (bin_frequency ?n R) [0..<?n] ! 0 = 0"
    using n by (simp add: bin_frequency_def)
  show ?thesis
    unfolding detect_pitch_def Let_def w f
    using assms(3) fr am b0 n by (simp add: map_replicate_const)
qed

text \<open>
  C8: for an all-zero buffer of at least two samples and a positive sample rate the
  estimator returns exactly 0 Hz, and no error.
\<close>

theorem silence_gives_zero:
  assumes "2 \<le> length xs" "\<forall>x\<in>set xs. x = 0" "0 < R"
  shows "detect_pitch xs R = Inr 0"
proof -
  have "xs \<noteq> []" using assms(1) by auto
  moreover have "R \<noteq> 0" using assms(3) by simp
  ultimately show ?thesis using assms(2) by (simp add: detect_pitch_silence)
qed

theorem silence_gives_zero_witness:
  "2 \<le> length [0, 0, 0 :: real] \<and> set [0, 0, 0 :: real] = {0} \<and> (0::int) < 44100
   \<and> detect_pitch [0, 0, 0] 44100 = Inr 0"
  using silence_gives_zero [of "[0, 0, 0]" 44100] by simp

lemma detect_pitch_single:
  assumes "R \<noteq> 0"
  shows "detect_pitch [x] R = Inr 0"
  using assms
  by (simp add: detect_pitch_def hanning_def fft_def fftfreq_def argmax_def Let_def)

lemma detect_pitch_empty: "detect_pitch [] R = Inl ValueError"
  by (simp add: detect_pitch_def hanning_def fft_def Let_def)

text \<open>
  C4, as the specification states it, asks for an error on every buffer of fewer than
  two samples. The function has no length check: on a one-sample buffer it returns
  0 Hz.
\<close>

theorem short_buffer_counterexample:
  "length [1 :: real] < 2 \<and> detect_pitch [1] 44100 = Inr 0"
  by (simp add: detect_pitch_def hanning_def fft_def fftfreq_def argmax_def Let_def)

text \<open>
  C4, amended: on a buffer of fewer than two samples the estimator fails only when the
  buffer is empty (the transform rejects it with ValueError); on a one-sample buffer at a
  nonzero sample rate it returns 0 Hz.
\<close>

theorem short_buffer_result:
  assumes "length xs < 2"
  shows "detect_pitch xs R =
         (if xs = [] then Inl ValueError
          else if R = 0 then Inl ZeroDivisionError
          else Inr 0)"
proof (cases xs)
  case Nil
  then show ?thesis by (simp add: detect_pitch_empty)
next
  case (Cons x ys)
  with assms have xs: "xs = [x]" by simp
  show ?thesis
  proof (cases "R = 0")
    case True
    then show ?thesis
      by (simp add: xs detect_pitch_def hanning_def fft_def Let_def)
  next
    case False
    then show ?thesis by (simp add: xs detect_pitch_single)
  qed
qed

theorem short_buffer_result_witness:
  "length [0.5 :: real] < 2 \<and> detect_pitch [0.5] 44100 = Inr 0
   \<and> length ([] :: real list) < 2 \<and> detect_pitch [] 44100 = Inl ValueError"
  using short_buffer_result [of "[0.5]" 44100] short_buffer_result [of "[]" 44100]
  by simp

section \<open>A buffer whose peak is the bin at half the sample rate\<close>





section \<open>The meter and the status display in the recording loop\<close>

lemma create_tuning_meter_values:
  "create_tuning_meter (Finite x) = Finite (max (min x 50) (- 50))"
  "create_tuning_meter PosInf = Finite 50"
  "create_tuning_meter NegInf = Finite (- 50)"
  "create_tuning_meter NaN = NaN"
  by (auto simp add: create_tuning_meter_def py_min_def py_max_def)

lemma create_tuning_meter_range:
  assumes "c \<noteq> NaN"
  shows "fle (Finite (- 50)) (create_tuning_meter c) \<and> fle (create_tuning_meter c) (Finite 50)"
  using assms by (cases c) (auto simp add: create_tuning_meter_values)

lemma quality_band_clamped: "quality_band (create_tuning_meter c) = quality_band c"
  by (cases c) (auto simp add: create_tuning_meter_values quality_band_def)

lemma detect_pitch_with_nonneg:
  assumes "detect_pitch_with ar xs R = Inr f"
  shows "0 \<le> f"
  using assms
  by (auto simp add: detect_pitch_with_def Let_def split: sum.splits if_splits)

lemma get_note_match_not_NaN:
  assumes "0 \<le> f" "get_note_match lg f note = Inr (e, c)"
  shows "c \<noteq> NaN"
proof -
  from assms(2) obtain f_t where n: "NOTES_float note = Some f_t"
    by (auto simp add: get_note_match_def split: option.splits)
  then have "0 < f_t" using NOTES_float_range by fastforce
  with assms(1) have "0 \<le> f / f_t" by simp
  then have "fle (Finite 0) (rnd (f / f_t))" by (rule rnd_nonneg)
  then have "np_log2 lg (rnd (f / f_t)) \<noteq> NaN"
    by (cases "rnd (f / f_t)") auto
  then have "fmul 1200 (np_log2 lg (rnd (f / f_t))) \<noteq> NaN"
    by (cases "np_log2 lg (rnd (f / f_t))") auto
  then show ?thesis using assms(2) unfolding get_note_match_Some [OF n] by auto
qed

text \<open>
  C9, as the specification states it, puts the needle inside the range from -50 to 50
  for every cents value. NaN is a cents value, the one the comparator returns at -1 Hz,
  and the meter passes it through: Python's \<^verbatim>\<open>min\<close> and \<^verbatim>\<open>max\<close> keep it.
\<close>

theorem clamp_counterexample:
  "get_note_match log2_rounded (- 1) ''A2'' = Inr (110, NaN)
   \<and> create_tuning_meter NaN = NaN
   \<and> \<not> fle (Finite (- 50)) (create_tuning_meter NaN)
   \<and> \<not> fle (create_tuning_meter NaN) (Finite 50)"
proof -
  have p: "(2::real) powr (- 1075) = 1 / 2 ^ 1075" by (simp add: powr_minus)
  have "(- 1 :: real) / 110 < - (2 powr (- 1075))" unfolding p by simp
  then have "np_log2 log2_rounded (rnd (- 1 / 110)) = NaN" by (rule np_log2_negative)
  then have "get_note_match log2_rounded (- 1) ''A2'' = Inr (110, NaN)"
    unfolding get_note_match_Some [OF NOTES_float_A2] by simp
  then show ?thesis by (simp add: create_tuning_meter_values)
qed

text \<open>
  C9, amended: the needle of the meter is the deviation itself inside the range from -50
  to 50, the bound 50 above it (also at plus infinity) and the bound -50 below it (also
  at minus infinity); at NaN it is NaN. The recording loop never produces NaN, so in
  every frame it processes the needle lies in the range. The status display classifies,
  and the panel prints, the deviation that the comparator returned, not the clamped one;
  the band is the same for both, because both thresholds lie inside the range.
\<close>

theorem display_clamp_only:
  "create_tuning_meter (Finite x) = Finite (max (min x 50) (- 50))
   \<and> create_tuning_meter PosInf = Finite 50
   \<and> create_tuning_meter NegInf = Finite (- 50)
   \<and> create_tuning_meter NaN = NaN
   \<and> quality_band (create_tuning_meter c) = quality_band c
   \<and> (process_frame ar lg xs note = Inr r \<longrightarrow>
        detect_pitch_with ar xs SAMPLE_RATE = Inr (shown_frequency r)
      \<and> get_note_match lg (shown_frequency r) note = Inr (shown_expected r, shown_cents r)
      \<and> shown_cents r \<noteq> NaN
      \<and> needle r = create_tuning_meter (shown_cents r)
      \<and> fle (Finite (- 50)) (needle r) \<and> fle (needle r) (Finite 50)
      \<and> status r = quality_band (shown_cents r))"
proof -
  have b: "detect_pitch_with ar xs SAMPLE_RATE = Inr (shown_frequency r)
      \<and> get_note_match lg (shown_frequency r) note = Inr (shown_expected r, shown_cents r)
      \<and> shown_cents r \<noteq> NaN
      \<and> needle r = create_tuning_meter (shown_cents r)
      \<and> fle (Finite (- 50)) (needle r) \<and> fle (needle r) (Finite 50)
      \<and> status r = quality_band (shown_cents r)"
    if p: "process_frame ar lg xs note = Inr r"
  proof -
    from p obtain f where f: "detect_pitch_with ar xs SAMPLE_RATE = Inr f"
      by (auto simp add: process_frame_def split: sum.splits)
    from p f obtain e c' where g: "get_note_match lg f note = Inr (e, c')"
      by (auto simp add: process_frame_def split: sum.splits)
    from p f g have r: "r = \<lparr>shown_frequency = f, shown_expected = e, shown_cents = c',
        needle = create_tuning_meter c', status = quality_band c'\<rparr>"
      by (simp add: process_frame_def)
    have "0 \<le> f" using f by (rule detect_pitch_with_nonneg)
    then have nn: "c' \<noteq> NaN" using g by (rule get_note_match_not_NaN)
    then have rng: "fle (Finite (- 50)) (create_tuning_meter c')
        \<and> fle (create_tuning_meter c') (Finite 50)"
      by (rule create_tuning_meter_range)
    show ?thesis
      using f g nn rng by (simp add: r)
  qed
  show ?thesis
    using b create_tuning_meter_values quality_band_clamped by blast
qed

lemma process_frame_silence:
  "process_frame exact_arith log2_rounded [0, 0, 0] ''A2''
   = Inr \<lparr>shown_frequency = 0, shown_expected = 110, shown_cents = NegInf,
          needle = Finite (- 50), status = OFF\<rparr>"
proof -
  have "detect_pitch [0, 0, 0] SAMPLE_RATE = Inr 0"
    by (rule detect_pitch_silence) (simp_all add: SAMPLE_RATE_def)
  then have "detect_pitch_with exact_arith [0, 0, 0] SAMPLE_RATE = Inr 0"
    by (simp only: detect_pitch_with_exact)
  then show ?thesis
    by (simp add: process_frame_def get_note_match_def
        create_tuning_meter_values quality_band_def)
qed

theorem display_clamp_only_witness:
  "create_tuning_meter (Finite 120) = Finite 50
   \<and> create_tuning_meter (Finite (- 120)) = Finite (- 50)
   \<and> create_tuning_meter (Finite 7) = Finite 7
   \<and> quality_band (Finite 120) = OFF
   \<and> process_frame exact_arith log2_rounded [0, 0, 0] ''A2''
       = Inr \<lparr>shown_frequency = 0, shown_expected = 110, shown_cents = NegInf,
              needle = Finite (- 50), status = OFF\<rparr>
   \<and> detect_pitch_with exact_arith [0, 0, 0] SAMPLE_RATE = Inr 0
   \<and> get_note_match log2_rounded 0 ''A2'' = Inr (110, NegInf)
   \<and> fle (Finite (- 50)) (Finite (- 50)) \<and> fle (Finite (- 50)) (Finite 50)
   \<and> OFF = quality_band NegInf"
  using display_clamp_only [of 120 "Finite 120" exact_arith log2_rounded "[0, 0, 0]" "''A2''"
      "\<lparr>shown_frequency = 0, shown_expected = 110, shown_cents = NegInf,
        needle = Finite (- 50), status = OFF\<rparr>"]
    display_clamp_only [of "- 120"] display_clamp_only [of 7]
    process_frame_silence
  by (simp add: quality_band_def)

end
